theory Spec2Isabelle
  imports Main
begin

section \<open>Values, exceptions and log records\<close>

text \<open>
  The module \<^verbatim>\<open>lumberjack/actions.py\<close> is Python 2 code: \<^verbatim>\<open>_flush\<close> takes the length of
  what \<^verbatim>\<open>map\<close> returns and goes over it twice, so \<^verbatim>\<open>map\<close> returns a list.

  The values that travel through the module: configuration entries, document types and
  document bodies. A Python dict is an association list in iteration order; \<open>PObject\<close>
  stands for any other object (a datetime, a file, ...).
\<close>

datatype pyval =
    PNone
  | PBool bool
  | PInt int
  | PStr string
  | PList "pyval list"
  | PDict "(string \<times> pyval) list"
  | PObject nat

text \<open>
  The exceptions the module distinguishes. Each constructor stands for the class and its
  subclasses; \<open>OtherException\<close> is any further subclass of \<^verbatim>\<open>Exception\<close> (for instance an
  \<^verbatim>\<open>ElasticsearchException\<close> that is no \<^verbatim>\<open>TransportError\<close>). Exits that do not derive from
  \<^verbatim>\<open>Exception\<close> (\<^verbatim>\<open>SystemExit\<close>, \<^verbatim>\<open>KeyboardInterrupt\<close>) are not modelled.
\<close>

datatype exn =
    KeyError string
  | TypeError
  | TransportError
  | IOError
  | OtherException string

datatype level = ERROR | DEBUG

text \<open>One constructor for each message the module hands to its logger.\<close>

datatype message =
    PostprocessorRaised exn          \<comment> \<open>\<^verbatim>\<open>Postprocessor %s raised an exception.\<close>\<close>
  | ErrorInFlushing                  \<comment> \<open>\<^verbatim>\<open>Error in flushing queue. Falling back to file.\<close>\<close>
  | LostLogs nat                     \<comment> \<open>\<^verbatim>\<open>Error in fallback log. Lost %d logs.\<close>\<close>
  | FlushedLogs nat                  \<comment> \<open>\<^verbatim>\<open>Flushed %d logs into Elasticsearch.\<close>\<close>
  | UnexpectedException exn          \<comment> \<open>\<^verbatim>\<open>Unexpected exception in actions thread. Continuing anyway.\<close>\<close>
  | CaughtTypeError                  \<comment> \<open>\<^verbatim>\<open>Caught TypeError from Event.wait(). ...\<close>\<close>
  | FlushingOnTrigger                \<comment> \<open>\<^verbatim>\<open>Flushing on external trigger.\<close>\<close>
  | FlushingAfterTimeout pyval       \<comment> \<open>\<^verbatim>\<open>Flushing after timeout of %.1fs.\<close>\<close>
  | FlushTriggered                   \<comment> \<open>\<^verbatim>\<open>Flush triggered; setting event object.\<close>\<close>
  | PutAction nat pyval              \<comment> \<open>\<^verbatim>\<open>Put an action in the queue. qlen = %d, doc_type = %s\<close>\<close>
  | HitMaxQueueLength                \<comment> \<open>\<^verbatim>\<open>Hit max_queue_length.\<close>\<close>

section \<open>Actions and the dispatcher state\<close>

text \<open>
  The dict literal that \<^verbatim>\<open>queue_index\<close> builds has four fixed keys; it is a record here,
  and \<open>action_dict\<close> gives it back as a value, keys in the order of the literal.
\<close>

record action =
  x_op_type :: string
  x_index :: string
  x_type :: pyval
  x_source :: pyval

definition action_dict :: "action \<Rightarrow> pyval" where
  "action_dict a =
     PDict [(''_op_type'', PStr (x_op_type a)), (''_index'', PStr (x_index a)),
            (''_type'', x_type a), (''_source'', x_source a)]"

text \<open>
  A postprocessor receives a deep copy of the body and returns the new body or raises.
  On values \<^verbatim>\<open>deepcopy\<close> is the identity.
\<close>

type_synonym postprocessor = "pyval \<Rightarrow> exn + pyval"

type_synonym queue_item = "action \<times> postprocessor list"

definition deepcopy :: "pyval \<Rightarrow> pyval" where
  "deepcopy v = v"

text \<open>
  The fields of \<^verbatim>\<open>ActionQueue\<close> set by \<^verbatim>\<open>__init__\<close>, followed by what the object acts
  on: the records given to the logger, the batch of every call of \<^verbatim>\<open>_bulk\<close>, and the text
  of the files, by path.
\<close>

record state =
  config :: "string \<rightharpoonup> pyval"
  queue :: "queue_item list"
  flush_event :: bool
  exceptions :: "exn list"
  running :: bool
  logger :: "(level \<times> message) list"
  bulk_calls :: "action list list"
  files :: "pyval \<Rightarrow> string"

text \<open>
  The collaborators: \<^verbatim>\<open>_bulk\<close> and \<^verbatim>\<open>_open\<close> (both replaceable, as the source says),
  the file object's \<^verbatim>\<open>write\<close> and \<^verbatim>\<open>close\<close>, and \<^verbatim>\<open>json.dumps\<close>. The first argument of
  the first four is the number of the flush (how many bulk writes came before), so that one
  environment can fail at one flush and succeed at the next; \<open>e_write\<close> also takes the
  position of the line. \<open>None\<close> means that the call returns.
\<close>

record env =
  e_bulk :: "nat \<Rightarrow> action list \<Rightarrow> exn option"
  e_open :: "nat \<Rightarrow> pyval \<Rightarrow> exn option"
  e_write :: "nat \<Rightarrow> nat \<Rightarrow> exn option"
  e_close :: "nat \<Rightarrow> exn option"
  e_dumps :: "pyval \<Rightarrow> exn + string"

definition init :: "(string \<rightharpoonup> pyval) \<Rightarrow> state" where
  "init cfg =
     \<lparr>config = cfg, queue = [], flush_event = False, exceptions = [], running = True,
      logger = [], bulk_calls = [], files = (\<lambda>p. [])\<rparr>"

definition log :: "level \<Rightarrow> message \<Rightarrow> state \<Rightarrow> state" where
  "log lvl m s = s\<lparr>logger := logger s @ [(lvl, m)]\<rparr>"

section \<open>The operations of ActionQueue\<close>

definition last_exception :: "state \<Rightarrow> exn option" where
  "last_exception s =
     (if length (exceptions s) = 0 then None
      else Some (exceptions s ! (length (exceptions s) - 1)))"

text \<open>
  \<^verbatim>\<open>_run_postprocessors\<close>: the loop over the postprocessors of one queue item. An exception
  of a postprocessor is logged and the body is left as it was.
\<close>

fun postprocess :: "state \<Rightarrow> action \<Rightarrow> postprocessor list \<Rightarrow> action \<times> state" where
  "postprocess s a [] = (a, s)"
| "postprocess s a (p # ps) =
     (case p (deepcopy (x_source a)) of
        Inr b \<Rightarrow> postprocess s (a\<lparr>x_source := b\<rparr>) ps
      | Inl e \<Rightarrow> postprocess (log ERROR (PostprocessorRaised e) s) a ps)"

definition run_postprocessors :: "state \<Rightarrow> queue_item \<Rightarrow> action \<times> state" where
  "run_postprocessors s queue_item =
     (case queue_item of (a, postprocessors) \<Rightarrow> postprocess s a postprocessors)"

text \<open>\<^verbatim>\<open>map(self._run_postprocessors, queue)\<close>, a list in Python 2, left to right.\<close>

fun map_run_postprocessors :: "state \<Rightarrow> queue_item list \<Rightarrow> action list \<times> state" where
  "map_run_postprocessors s [] = ([], s)"
| "map_run_postprocessors s (i # is) =
     (case run_postprocessors s i of
        (a, s') \<Rightarrow> (case map_run_postprocessors s' is of (as, s'') \<Rightarrow> (a # as, s'')))"

text \<open>\<^verbatim>\<open>map(lambda doc: dumps(doc) + '\n', actions)\<close>: the first failing \<^verbatim>\<open>dumps\<close> ends it.\<close>

fun json_lines :: "env \<Rightarrow> action list \<Rightarrow> exn + string list" where
  "json_lines ev [] = Inr []"
| "json_lines ev (a # as) =
     (case e_dumps ev (action_dict a) of
        Inl e \<Rightarrow> Inl e
      | Inr t \<Rightarrow>
          (case json_lines ev as of
             Inl e \<Rightarrow> Inl e
           | Inr ls \<Rightarrow> Inr ((t @ [CHR 0x0A]) # ls)))"

text \<open>The \<^verbatim>\<open>for line in json_lines\<close> loop; \<open>i\<close> counts the lines written so far.\<close>

fun write_lines :: "env \<Rightarrow> nat \<Rightarrow> pyval \<Rightarrow> nat \<Rightarrow> string list \<Rightarrow> state \<Rightarrow> exn option \<times> state" where
  "write_lines ev n path i [] s = (None, s)"
| "write_lines ev n path i (l # ls) s =
     (case e_write ev n i of
        Some e \<Rightarrow> (Some e, s)
      | None \<Rightarrow> write_lines ev n path (Suc i) ls (s\<lparr>files := (files s)(path := files s path @ l)\<rparr>))"

text \<open>
  The body of the inner \<^verbatim>\<open>try\<close>: look the path up, open the file for appending, serialise,
  write, and close on the way out of the \<^verbatim>\<open>with\<close> block, whatever happened inside. The
  result is the exception that leaves the block, if any.
\<close>

definition write_fallback :: "env \<Rightarrow> nat \<Rightarrow> action list \<Rightarrow> state \<Rightarrow> exn option \<times> state" where
  "write_fallback ev n actions s =
     (case config s ''fallback_log_file'' of
        None \<Rightarrow> (Some (KeyError ''fallback_log_file''), s)
      | Some path \<Rightarrow>
          (case e_open ev n path of
             Some e \<Rightarrow> (Some e, s)
           | None \<Rightarrow>
               (case (case json_lines ev actions of
                        Inl e \<Rightarrow> (Some e, s)
                      | Inr ls \<Rightarrow> write_lines ev n path 0 ls s) of
                  (r, s') \<Rightarrow>
                    (case e_close ev n of
                       Some e \<Rightarrow> (Some e, s')
                     | None \<Rightarrow> (r, s')))))"

text \<open>
  \<^verbatim>\<open>_flush\<close>. \<open>swap\<close> is the part under the lock. The result is \<open>Inl e\<close> when \<open>e\<close>
  leaves \<^verbatim>\<open>_flush\<close>.
\<close>

definition swap :: "state \<Rightarrow> queue_item list \<times> state" where
  "swap s = (queue s, s\<lparr>queue := []\<rparr>)"

definition flush :: "env \<Rightarrow> state \<Rightarrow> (exn + unit) \<times> state" where
  "flush ev s =
     (case swap s of
        (q, s1) \<Rightarrow>
          (case map_run_postprocessors s1 q of
             (actions, s2) \<Rightarrow>
               (let n = length (bulk_calls s2);
                    s3 = s2\<lparr>bulk_calls := bulk_calls s2 @ [actions]\<rparr>
                in case e_bulk ev n actions of
                     None \<Rightarrow> (Inr (), log DEBUG (FlushedLogs (length actions)) s3)
                   | Some e \<Rightarrow>
                       if e = TransportError then
                         (case write_fallback ev n actions (log ERROR ErrorInFlushing s3) of
                            (None, s4) \<Rightarrow> (Inr (), s4)
                          | (Some e', s4) \<Rightarrow>
                              if e' = IOError
                              then (Inr (), log ERROR (LostLogs (length actions)) s4)
                              else (Inl e', s4))
                       else (Inl e, s3))))"

definition trigger_flush :: "state \<Rightarrow> state" where
  "trigger_flush s = (log DEBUG FlushTriggered s)\<lparr>flush_event := True\<rparr>"

text \<open>
  \<^verbatim>\<open>len(self.queue) >= self.config['max_queue_length']\<close> for a value that is not
  \<^verbatim>\<open>None\<close>. Python 2 orders a number below every value that is not a number, and a
  boolean is the number 0 or 1.
\<close>

fun len_ge :: "nat \<Rightarrow> pyval \<Rightarrow> bool" where
  "len_ge n (PInt k) = (k \<le> int n)"
| "len_ge n (PBool b) = ((if b then 1 else 0) \<le> n)"
| "len_ge n PNone = True"
| "len_ge n v = False"

text \<open>
  \<^verbatim>\<open>queue_index\<close>. The suffix is a string, so \<^verbatim>\<open>self.config['index_prefix'] + suffix\<close>
  is the concatenation for a string prefix and a \<^verbatim>\<open>TypeError\<close> otherwise. The state is
  returned also when the call raises: the second lookup comes after the append.
\<close>

definition queue_index ::
  "state \<Rightarrow> string \<Rightarrow> pyval \<Rightarrow> pyval \<Rightarrow> postprocessor list option \<Rightarrow> (exn + unit) \<times> state" where
  "queue_index s suffix doc_type body postprocessors =
     (let pps = (case postprocessors of Some ps \<Rightarrow> ps | None \<Rightarrow> []) in
      case config s ''index_prefix'' of
        None \<Rightarrow> (Inl (KeyError ''index_prefix''), s)
      | Some (PStr prefix) \<Rightarrow>
          (let a = \<lparr>x_op_type = ''index'', x_index = prefix @ suffix,
                     x_type = doc_type, x_source = body\<rparr>;
               s1 = s\<lparr>queue := queue s @ [(a, pps)]\<rparr>;
               s2 = log DEBUG (PutAction (length (queue s1)) doc_type) s1
           in case config s2 ''max_queue_length'' of
                None \<Rightarrow> (Inl (KeyError ''max_queue_length''), s2)
              | Some m \<Rightarrow>
                  if m \<noteq> PNone \<and> len_ge (length (queue s2)) m
                  then (Inr (), trigger_flush (log DEBUG HitMaxQueueLength s2))
                  else (Inr (), s2))
      | Some _ \<Rightarrow> (Inl TypeError, s))"

section \<open>The thread\<close>

text \<open>
  What the other threads do: calls of \<^verbatim>\<open>queue_index\<close> and \<^verbatim>\<open>trigger_flush\<close>, and the
  shutdown request, which sets \<^verbatim>\<open>running\<close> to false. An exception of \<^verbatim>\<open>queue_index\<close> goes
  to its caller; the state it leaves stays.
\<close>

datatype call =
    Enqueue string pyval pyval "postprocessor list option"
  | Trigger
  | Stop

fun perform :: "state \<Rightarrow> call \<Rightarrow> state" where
  "perform s (Enqueue suffix doc_type body pps) = snd (queue_index s suffix doc_type body pps)"
| "perform s Trigger = trigger_flush s"
| "perform s Stop = s\<lparr>running := False\<rparr>"

text \<open>
  How a call of \<^verbatim>\<open>Event.wait\<close> ends, once the calls made during it are done. \<open>Expires\<close>:
  the interval has passed, and the wait returns the flag. \<open>Pending\<close>: the interval has not
  passed when the observation ends, so the wait returns only if the event is set.
  \<open>RaisesTypeError\<close>: the wait raises \<^verbatim>\<open>TypeError\<close>.
\<close>

datatype wait_end = Expires | Pending | RaisesTypeError

text \<open>
  One pass through the body of the \<^verbatim>\<open>while\<close> loop up to the call of \<^verbatim>\<open>wait\<close>: the flush,
  the handler for what it raises, and in the \<^verbatim>\<open>finally\<close> block the clearing of the event
  and the lookup of the interval. \<open>Inl e\<close>: \<open>e\<close> leaves \<^verbatim>\<open>run\<close>.

  \<open>calls\<close> are the calls that other threads make while the flush is under way, after the
  swap and before the event is cleared. The flush reads nothing that they change, so they
  are performed here after it; only the order of the log records of the two threads is
  then one of several.
\<close>

definition cycle :: "env \<Rightarrow> state \<Rightarrow> call list \<Rightarrow> (exn + pyval) \<times> state" where
  "cycle ev s calls =
     (case flush ev s of
        (r, s1) \<Rightarrow>
          (let s2 = (case r of
                       Inl exc \<Rightarrow> (log ERROR (UnexpectedException exc) s1)
                                    \<lparr>exceptions := exceptions s1 @ [exc]\<rparr>
                     | Inr u \<Rightarrow> s1);
               s3 = foldl perform s2 calls;
               s4 = s3\<lparr>flush_event := False\<rparr>
           in case config s4 ''interval'' of
                None \<Rightarrow> (Inl (KeyError ''interval''), s4)
              | Some interval \<Rightarrow> (Inr interval, s4)))"

text \<open>
  How \<^verbatim>\<open>run\<close> ends. \<open>Exited\<close>: the loop test was false. \<open>Returned\<close>: the \<^verbatim>\<open>return\<close> in
  the handler of \<^verbatim>\<open>TypeError\<close>. \<open>Escaped\<close>: an exception left \<^verbatim>\<open>run\<close>. \<open>Waiting\<close>: the
  thread is in \<^verbatim>\<open>wait\<close> and nothing more happens.
\<close>

datatype outcome =
    Exited state
  | Returned state
  | Escaped exn state
  | Waiting state

fun final :: "outcome \<Rightarrow> state" where
  "final (Exited s) = s"
| "final (Returned s) = s"
| "final (Escaped e s) = s"
| "final (Waiting s) = s"

text \<open>
  The thread from the call of \<^verbatim>\<open>wait\<close> on. Each element of the script is one wait and
  the pass that follows it: the calls of the other threads during the wait, how the wait
  ends, and the calls during the flush of that pass. When the wait returns, the flag tells
  whether the event was set; then the loop test, and the next pass.
\<close>

type_synonym round = "call list \<times> wait_end \<times> call list"

fun waiting :: "env \<Rightarrow> pyval \<Rightarrow> state \<Rightarrow> round list \<Rightarrow> outcome" where
  "waiting ev interval s [] = Waiting s"
| "waiting ev interval s ((calls, w, during) # script) =
     (let s1 = foldl perform s calls in
      if w = RaisesTypeError then Returned (log DEBUG CaughtTypeError s1)
      else if w = Pending \<and> \<not> flush_event s1 then Waiting s1
      else
        (let s2 = log DEBUG (if flush_event s1 then FlushingOnTrigger
                             else FlushingAfterTimeout interval) s1
         in if running s2 \<or> length (queue s2) > 0 then
              (case cycle ev s2 during of
                 (Inl e, s3) \<Rightarrow> Escaped e s3
               | (Inr interval', s3) \<Rightarrow> waiting ev interval' s3 script)
            else Exited s2))"

text \<open>\<^verbatim>\<open>run\<close>: the loop test, the first pass with the calls \<open>during\<close> its flush, the waits.\<close>

definition run :: "env \<Rightarrow> state \<Rightarrow> call list \<Rightarrow> round list \<Rightarrow> outcome" where
  "run ev s during script =
     (if running s \<or> length (queue s) > 0 then
        (case cycle ev s during of
           (Inl e, s1) \<Rightarrow> Escaped e s1
         | (Inr interval, s1) \<Rightarrow> waiting ev interval s1 script)
      else Exited s)"

section \<open>Requests and batches\<close>

text \<open>
  The arguments of one call of \<^verbatim>\<open>queue_index\<close>, the queue item the call builds from them
  under a given prefix, and a run of calls, each on the state the one before has left.
\<close>

type_synonym request = "string \<times> pyval \<times> pyval \<times> postprocessor list option"

definition queued :: "string \<Rightarrow> request \<Rightarrow> queue_item" where
  "queued prefix r =
     (case r of (suffix, doc_type, body, postprocessors) \<Rightarrow>
        (\<lparr>x_op_type = ''index'', x_index = prefix @ suffix, x_type = doc_type, x_source = body\<rparr>,
         case postprocessors of Some ps \<Rightarrow> ps | None \<Rightarrow> []))"

fun queue_index_all :: "state \<Rightarrow> request list \<Rightarrow> state" where
  "queue_index_all s [] = s"
| "queue_index_all s ((suffix, doc_type, body, postprocessors) # rs) =
     queue_index_all (snd (queue_index s suffix doc_type body postprocessors)) rs"

text \<open>The batch of a flush: the queue, each item postprocessed.\<close>

definition batch :: "state \<Rightarrow> action list" where
  "batch s = map (\<lambda>i. fst (run_postprocessors s i)) (queue s)"

section \<open>A sample configuration and sample collaborators\<close>

text \<open>
  \<open>dumps\<close> prints a value the way \<^verbatim>\<open>json.dumps\<close> prints values whose strings are
  printable ASCII, and raises \<^verbatim>\<open>TypeError\<close> on a value that holds an object. It is the
  \<open>e_dumps\<close> of the sample environments below; the theorems hold for every environment.
\<close>

fun join :: "string \<Rightarrow> string list \<Rightarrow> string" where
  "join sep [] = []"
| "join sep [x] = x"
| "join sep (x # y # ys) = x @ sep @ join sep (y # ys)"

fun digits :: "nat \<Rightarrow> string" where
  "digits n =
     (if n < 10 then [''0123456789'' ! n]
      else digits (n div 10) @ [''0123456789'' ! (n mod 10)])"

definition quote :: "string \<Rightarrow> string" where
  "quote s =
     [CHR 0x22]
     @ concat (map (\<lambda>c. if c = CHR 0x22 \<or> c = CHR 0x5C then [CHR 0x5C, c] else [c]) s)
     @ [CHR 0x22]"

fun encode :: "pyval \<Rightarrow> string" where
  "encode PNone = ''null''"
| "encode (PBool b) = (if b then ''true'' else ''false'')"
| "encode (PInt i) = (if i < 0 then ''-'' @ digits (nat (- i)) else digits (nat i))"
| "encode (PStr s) = quote s"
| "encode (PList vs) = ''['' @ join '', '' (map encode vs) @ '']''"
| "encode (PDict kvs) =
     ''{'' @ join '', '' (map (\<lambda>(k, v). quote k @ '': '' @ encode v) kvs) @ ''}''"
| "encode (PObject n) = []"

fun serialisable :: "pyval \<Rightarrow> bool" where
  "serialisable (PList vs) = (\<forall>v \<in> set vs. serialisable v)"
| "serialisable (PDict kvs) = (\<forall>(k, v) \<in> set kvs. serialisable v)"
| "serialisable (PObject n) = False"
| "serialisable v = True"

definition dumps :: "pyval \<Rightarrow> exn + string" where
  "dumps v = (if serialisable v then Inr (encode v) else Inl TypeError)"

definition sample_config :: "string \<rightharpoonup> pyval" where
  "sample_config =
     [''index_prefix'' \<mapsto> PStr ''log-'', ''interval'' \<mapsto> PInt 30,
      ''max_queue_length'' \<mapsto> PNone, ''fallback_log_file'' \<mapsto> PStr ''/tmp/lj.log'']"

text \<open>Two postprocessors: one wraps the body in a list, one raises.\<close>

definition wrap :: postprocessor where
  "wrap v = Inr (PList [v])"

definition broken :: postprocessor where
  "broken v = Inl (OtherException ''boom'')"

definition sample_action :: action where
  "sample_action =
     \<lparr>x_op_type = ''index'', x_index = ''log-a'', x_type = PStr ''t'', x_source = PInt 1\<rparr>"

text \<open>
  Three environments: the store takes every batch; the store is down and the fallback file
  can be written; the store is down at the first flush only and no file can be opened.
\<close>

definition env_ok :: env where
  "env_ok = \<lparr>e_bulk = (\<lambda>n as. None), e_open = (\<lambda>n p. None), e_write = (\<lambda>n i. None),
             e_close = (\<lambda>n. None), e_dumps = dumps\<rparr>"

definition env_down :: env where
  "env_down = env_ok\<lparr>e_bulk := (\<lambda>n as. Some TransportError)\<rparr>"

definition env_lost :: env where
  "env_lost = env_ok\<lparr>e_bulk := (\<lambda>n as. if n = 0 then Some TransportError else None),
                     e_open := (\<lambda>n p. Some IOError)\<rparr>"

text \<open>A dispatcher with one record in its queue.\<close>

definition one_queued :: state where
  "one_queued = queue_index_all (init sample_config)
     [(''a'', PStr ''t'', PDict [(''m'', PStr ''hi'')], None)]"

text \<open>
  An environment whose store refuses every batch with an error that is no transport error,
  and the dispatcher of the sample configuration after the first pass of its loop, waiting.
\<close>

definition env_broken :: env where
  "env_broken = env_ok\<lparr>e_bulk := (\<lambda>n as. Some (OtherException ''bulk index error''))\<rparr>"

definition idle :: state where
  "idle = snd (cycle env_ok (init sample_config) [])"

section \<open>What each operation leaves unchanged\<close>

lemma log_fields [simp]:
  "config (log l m s) = config s" "queue (log l m s) = queue s"
  "flush_event (log l m s) = flush_event s" "exceptions (log l m s) = exceptions s"
  "running (log l m s) = running s" "bulk_calls (log l m s) = bulk_calls s"
  "files (log l m s) = files s" "logger (log l m s) = logger s @ [(l, m)]"
  by (simp_all add: log_def)

lemma postprocess_append:
  "postprocess s a (ps @ qs) = (case postprocess s a ps of (a', s') \<Rightarrow> postprocess s' a' qs)"
  by (induction ps arbitrary: s a) (auto split: sum.splits)

text \<open>The action that comes out does not depend on the state, only the log does.\<close>

lemma postprocess_action: "fst (postprocess s a ps) = fst (postprocess s' a ps)"
  by (induction ps arbitrary: s s' a) (auto split: sum.splits)

lemma postprocess_state: "\<exists>l. snd (postprocess s a ps) = s\<lparr>logger := logger s @ l\<rparr>"
proof (induction ps arbitrary: s a)
  case Nil
  show ?case by (rule exI [of _ "[]"]) simp
next
  case (Cons p ps)
  show ?case
  proof (cases "p (deepcopy (x_source a))")
    case (Inr b)
    with Cons.IH [of s "a\<lparr>x_source := b\<rparr>"] show ?thesis by simp
  next
    case (Inl e)
    let ?s = "log ERROR (PostprocessorRaised e) s"
    from Cons.IH [of ?s a]
    obtain l where "snd (postprocess ?s a ps) = ?s\<lparr>logger := logger ?s @ l\<rparr>"
      by blast
    with Inl have "snd (postprocess s a (p # ps))
        = s\<lparr>logger := logger s @ ((ERROR, PostprocessorRaised e) # l)\<rparr>"
      by (simp add: log_def)
    then show ?thesis by blast
  qed
qed

lemma map_run_action:
  "fst (map_run_postprocessors s q) = map (\<lambda>i. fst (run_postprocessors s0 i)) q"
proof (induction q arbitrary: s)
  case Nil
  show ?case by simp
next
  case (Cons i q)
  obtain a ps where i: "i = (a, ps)" by (cases i)
  show ?case using Cons.IH postprocess_action [of s a ps s0]
    by (simp add: i run_postprocessors_def split_beta)
qed

lemma map_run_state: "\<exists>l. snd (map_run_postprocessors s q) = s\<lparr>logger := logger s @ l\<rparr>"
proof (induction q arbitrary: s)
  case Nil
  show ?case by (rule exI [of _ "[]"]) simp
next
  case (Cons i q)
  obtain a ps where i: "i = (a, ps)" by (cases i)
  let ?s = "snd (postprocess s a ps)"
  obtain l1 where l1: "?s = s\<lparr>logger := logger s @ l1\<rparr>"
    using postprocess_state by blast
  obtain l2 where l2: "snd (map_run_postprocessors ?s q) = ?s\<lparr>logger := logger ?s @ l2\<rparr>"
    using Cons.IH by blast
  have "snd (map_run_postprocessors s (i # q)) = s\<lparr>logger := logger s @ (l1 @ l2)\<rparr>"
    using l2 by (simp add: i run_postprocessors_def split_beta l1)
  then show ?case by blast
qed

lemma write_lines_fields [simp]:
  "config (snd (write_lines ev n path i ls s)) = config s"
  "queue (snd (write_lines ev n path i ls s)) = queue s"
  "flush_event (snd (write_lines ev n path i ls s)) = flush_event s"
  "exceptions (snd (write_lines ev n path i ls s)) = exceptions s"
  "running (snd (write_lines ev n path i ls s)) = running s"
  "logger (snd (write_lines ev n path i ls s)) = logger s"
  "bulk_calls (snd (write_lines ev n path i ls s)) = bulk_calls s"
  by (induction ls arbitrary: i s; simp split: option.splits)+

lemma write_lines_all:
  "\<forall>j < length ls. e_write ev n (i + j) = None \<Longrightarrow>
   write_lines ev n path i ls s = (None, s\<lparr>files := (files s)(path := files s path @ concat ls)\<rparr>)"
proof (induction ls arbitrary: i s)
  case Nil
  show ?case by simp
next
  case (Cons l ls)
  from Cons.prems have w: "e_write ev n i = None" by force
  from Cons.prems have "\<forall>j < length ls. e_write ev n (Suc i + j) = None" by force
  from Cons.IH [OF this] w show ?case by (simp add: fun_eq_iff)
qed

lemma write_fallback_fields [simp]:
  "config (snd (write_fallback ev n as s)) = config s"
  "queue (snd (write_fallback ev n as s)) = queue s"
  "flush_event (snd (write_fallback ev n as s)) = flush_event s"
  "exceptions (snd (write_fallback ev n as s)) = exceptions s"
  "running (snd (write_fallback ev n as s)) = running s"
  "logger (snd (write_fallback ev n as s)) = logger s"
  "bulk_calls (snd (write_fallback ev n as s)) = bulk_calls s"
  by (simp_all add: write_fallback_def split_beta split: option.splits sum.splits)

lemma map_run_fields [simp]:
  "config (snd (map_run_postprocessors s q)) = config s"
  "queue (snd (map_run_postprocessors s q)) = queue s"
  "flush_event (snd (map_run_postprocessors s q)) = flush_event s"
  "exceptions (snd (map_run_postprocessors s q)) = exceptions s"
  "running (snd (map_run_postprocessors s q)) = running s"
  "bulk_calls (snd (map_run_postprocessors s q)) = bulk_calls s"
  "files (snd (map_run_postprocessors s q)) = files s"
  using map_run_state [of s q] by auto

lemma flush_fields [simp]:
  "config (snd (flush ev s)) = config s"
  "queue (snd (flush ev s)) = []"
  "flush_event (snd (flush ev s)) = flush_event s"
  "exceptions (snd (flush ev s)) = exceptions s"
  "running (snd (flush ev s)) = running s"
  "bulk_calls (snd (flush ev s)) = bulk_calls s @ [batch s]"
  by (simp_all add: flush_def swap_def split_beta Let_def batch_def
        map_run_action [of _ _ s] split: option.splits sum.splits)

lemma trigger_flush_fields [simp]:
  "config (trigger_flush s) = config s" "queue (trigger_flush s) = queue s"
  "flush_event (trigger_flush s) = True" "exceptions (trigger_flush s) = exceptions s"
  "running (trigger_flush s) = running s" "bulk_calls (trigger_flush s) = bulk_calls s"
  "files (trigger_flush s) = files s"
  "logger (trigger_flush s) = logger s @ [(DEBUG, FlushTriggered)]"
  by (simp_all add: trigger_flush_def)

lemma queue_index_fields [simp]:
  "config (snd (queue_index s suffix dt body pps)) = config s"
  "exceptions (snd (queue_index s suffix dt body pps)) = exceptions s"
  "running (snd (queue_index s suffix dt body pps)) = running s"
  "bulk_calls (snd (queue_index s suffix dt body pps)) = bulk_calls s"
  "files (snd (queue_index s suffix dt body pps)) = files s"
  by (simp_all add: queue_index_def Let_def split: option.splits pyval.splits)

lemma queue_index_queue:
  "config s ''index_prefix'' = Some (PStr prefix) \<Longrightarrow>
   queue (snd (queue_index s suffix dt body pps)) = queue s @ [queued prefix (suffix, dt, body, pps)]"
  by (simp add: queue_index_def Let_def queued_def split: option.splits)

lemma queue_index_all_fields [simp]:
  "config (queue_index_all s rs) = config s"
  "exceptions (queue_index_all s rs) = exceptions s"
  "running (queue_index_all s rs) = running s"
  "bulk_calls (queue_index_all s rs) = bulk_calls s"
  "files (queue_index_all s rs) = files s"
  by (induction s rs rule: queue_index_all.induct; simp)+

lemma queue_index_all_queue:
  "config s ''index_prefix'' = Some (PStr prefix) \<Longrightarrow>
   queue (queue_index_all s rs) = queue s @ map (queued prefix) rs"
  by (induction s rs rule: queue_index_all.induct) (simp_all add: queue_index_queue)

lemma batch_queue: "queue s = queue s' \<Longrightarrow> batch s = batch s'"
  using map_run_action [of s "queue s" s'] map_run_action [of s "queue s" s]
  by (simp add: batch_def)

lemma write_lines_result: "fst (write_lines ev n path i ls s) = fst (write_lines ev n path i ls s')"
  by (induction ls arbitrary: i s s') (auto split: option.splits)

lemma write_fallback_result:
  "config s = config s' \<Longrightarrow> fst (write_fallback ev n as s) = fst (write_fallback ev n as s')"
  using write_lines_result [of ev n _ 0 _ s s']
  by (simp add: write_fallback_def split_beta split: option.splits sum.splits)

lemma json_lines_ok:
  "\<forall>a \<in> set as. e_dumps ev (action_dict a) = Inr (text a) \<Longrightarrow>
   json_lines ev as = Inr (map (\<lambda>a. text a @ [CHR 0x0A]) as)"
  by (induction as) simp_all

text \<open>\<^verbatim>\<open>_flush\<close> with the swap and the postprocessing done.\<close>

lemma flush_unfold:
  "flush ev s =
     (let s3 = (snd (map_run_postprocessors (s\<lparr>queue := []\<rparr>) (queue s)))
                 \<lparr>bulk_calls := bulk_calls s @ [batch s]\<rparr>;
          n = length (bulk_calls s)
      in case e_bulk ev n (batch s) of
           None \<Rightarrow> (Inr (), log DEBUG (FlushedLogs (length (batch s))) s3)
         | Some e \<Rightarrow>
             if e = TransportError then
               (case write_fallback ev n (batch s) (log ERROR ErrorInFlushing s3) of
                  (None, s4) \<Rightarrow> (Inr (), s4)
                | (Some e', s4) \<Rightarrow>
                    if e' = IOError
                    then (Inr (), log ERROR (LostLogs (length (batch s))) s4)
                    else (Inl e', s4))
             else (Inl e, s3))"
proof -
  have a: "fst (map_run_postprocessors (s\<lparr>queue := []\<rparr>) (queue s)) = batch s"
    by (simp add: batch_def map_run_action [of _ _ s])
  show ?thesis
    by (simp add: flush_def swap_def split_beta Let_def a cong: option.case_cong if_cong)
qed

lemma flush_files_kept:
  "e_bulk ev (length (bulk_calls s)) (batch s) \<noteq> Some TransportError \<Longrightarrow>
   files (snd (flush ev s)) = files s"
  by (simp add: flush_unfold Let_def split: option.splits)

lemma flush_lost:
  assumes "e_bulk ev (length (bulk_calls s)) (batch s) = Some TransportError"
      and "fst (write_fallback ev (length (bulk_calls s)) (batch s) s) = Some IOError"
  shows "fst (flush ev s) = Inr ()"
    and "last (logger (snd (flush ev s))) = (ERROR, LostLogs (length (queue s)))"
proof -
  let ?s3 = "(snd (map_run_postprocessors (s\<lparr>queue := []\<rparr>) (queue s)))
                 \<lparr>bulk_calls := bulk_calls s @ [batch s]\<rparr>"
  have "fst (write_fallback ev (length (bulk_calls s)) (batch s) (log ERROR ErrorInFlushing ?s3))
      = Some IOError"
    using assms(2) write_fallback_result [of "log ERROR ErrorInFlushing ?s3" s] by simp
  then obtain s4 where w: "write_fallback ev (length (bulk_calls s)) (batch s)
      (log ERROR ErrorInFlushing ?s3) = (Some IOError, s4)"
    by (cases "write_fallback ev (length (bulk_calls s)) (batch s) (log ERROR ErrorInFlushing ?s3)") simp
  have f: "flush ev s = (Inr (), log ERROR (LostLogs (length (batch s))) s4)"
    using assms(1) w by (simp add: flush_unfold Let_def)
  show "fst (flush ev s) = Inr ()" by (simp add: f)
  show "last (logger (snd (flush ev s))) = (ERROR, LostLogs (length (queue s)))"
    by (simp add: f batch_def)
qed

lemma flush_sent:
  "e_bulk ev (length (bulk_calls s)) (batch s) = None \<Longrightarrow>
   fst (flush ev s) = Inr ()
   \<and> last (logger (snd (flush ev s))) = (DEBUG, FlushedLogs (length (queue s)))"
  by (simp add: flush_unfold Let_def batch_def)

lemma perform_fields [simp]:
  "config (perform s c) = config s"
  "exceptions (perform s c) = exceptions s"
  "bulk_calls (perform s c) = bulk_calls s"
  "files (perform s c) = files s"
  by (cases c; simp)+

lemma perform_all_fields [simp]:
  "config (foldl perform s cs) = config s"
  "exceptions (foldl perform s cs) = exceptions s"
  "bulk_calls (foldl perform s cs) = bulk_calls s"
  "files (foldl perform s cs) = files s"
  by (induction cs arbitrary: s; simp)+

lemma cycle_fields [simp]:
  "config (snd (cycle ev s calls)) = config s"
  "flush_event (snd (cycle ev s calls)) = False"
  "bulk_calls (snd (cycle ev s calls)) = bulk_calls s @ [batch s]"
  "exceptions (snd (cycle ev s calls))
     = exceptions s @ (case fst (flush ev s) of Inl e \<Rightarrow> [e] | Inr u \<Rightarrow> [])"
  by (simp_all add: cycle_def split_beta Let_def split: option.splits sum.splits)

lemma cycle_alone_fields [simp]:
  "queue (snd (cycle ev s [])) = []"
  "running (snd (cycle ev s [])) = running s"
  by (simp_all add: cycle_def split_beta Let_def split: option.splits sum.splits)

lemma cycle_result:
  "fst (cycle ev s calls)
     = (case config s ''interval'' of None \<Rightarrow> Inl (KeyError ''interval'') | Some iv \<Rightarrow> Inr iv)"
  by (simp add: cycle_def split_beta Let_def split: option.splits sum.splits)

lemma flush_fallback_written:
  assumes "e_bulk ev (length (bulk_calls s)) (batch s) = Some TransportError"
      and "config s ''fallback_log_file'' = Some path"
      and "e_open ev (length (bulk_calls s)) path = None"
      and "\<forall>a \<in> set (batch s). e_dumps ev (action_dict a) = Inr (text a)"
      and "\<forall>j < length (batch s). e_write ev (length (bulk_calls s)) j = None"
      and "e_close ev (length (bulk_calls s)) = None"
  shows "fst (flush ev s) = Inr ()
       \<and> files (snd (flush ev s))
           = (files s)(path := files s path @ concat (map (\<lambda>a. text a @ [CHR 0x0A]) (batch s)))"
proof -
  let ?n = "length (bulk_calls s)"
  let ?ls = "map (\<lambda>a. text a @ [CHR 0x0A]) (batch s)"
  let ?s3 = "log ERROR ErrorInFlushing ((snd (map_run_postprocessors (s\<lparr>queue := []\<rparr>) (queue s)))
                 \<lparr>bulk_calls := bulk_calls s @ [batch s]\<rparr>)"
  from assms(4) have j: "json_lines ev (batch s) = Inr ?ls" by (simp add: json_lines_ok)
  from assms(5) have "\<forall>j < length ?ls. e_write ev ?n (0 + j) = None" by simp
  from write_lines_all [OF this, of path ?s3]
  have w: "write_lines ev ?n path 0 ?ls ?s3
      = (None, ?s3\<lparr>files := (files ?s3)(path := files ?s3 path @ concat ?ls)\<rparr>)" .
  have wf: "write_fallback ev ?n (batch s) ?s3
      = (None, ?s3\<lparr>files := (files ?s3)(path := files ?s3 path @ concat ?ls)\<rparr>)"
    using assms by (simp add: write_fallback_def j w)
  have f: "flush ev s = (Inr (), ?s3\<lparr>files := (files ?s3)(path := files ?s3 path @ concat ?ls)\<rparr>)"
    using assms(1) by (simp add: flush_unfold Let_def wf)
  show ?thesis by (simp add: f)
qed

lemma one_queued_eq:
  "one_queued = (init sample_config)
     \<lparr>queue := [(\<lparr>x_op_type = ''index'', x_index = ''log-a'', x_type = PStr ''t'',
                  x_source = PDict [(''m'', PStr ''hi'')]\<rparr>, [])],
      logger := [(DEBUG, PutAction 1 (PStr ''t''))]\<rparr>"
  by (simp add: one_queued_def queue_index_def init_def sample_config_def Let_def log_def)

lemma one_queued_batch:
  "batch one_queued = [\<lparr>x_op_type = ''index'', x_index = ''log-a'', x_type = PStr ''t'',
                  x_source = PDict [(''m'', PStr ''hi'')]\<rparr>]"
  by (simp add: one_queued_eq batch_def run_postprocessors_def)

section \<open>Facts about the loop\<close>

text \<open>
  One wait and what follows it, case by case: the wait raises; it does not end; it returns
  and the loop test fails; it returns and the pass that follows ends \<^verbatim>\<open>run\<close> or reaches
  the next wait.
\<close>

lemma waiting_step:
  fixes ev iv s calls w during script
  defines "s1 \<equiv> foldl perform s calls"
  defines "s2 \<equiv> log DEBUG (if flush_event s1 then FlushingOnTrigger
                            else FlushingAfterTimeout iv) s1"
  defines "r \<equiv> waiting ev iv s ((calls, w, during) # script)"
  obtains
    (raised) "w = RaisesTypeError" "r = Returned (log DEBUG CaughtTypeError s1)"
  | (blocked) "w = Pending" "\<not> flush_event s1" "r = Waiting s1"
  | (exited) "\<not> running s2" "queue s2 = []" "r = Exited s2"
  | (escaped) e s3 where "running s2 \<or> queue s2 \<noteq> []" "cycle ev s2 during = (Inl e, s3)"
      "r = Escaped e s3"
  | (passed) iv' s3 where "running s2 \<or> queue s2 \<noteq> []" "cycle ev s2 during = (Inr iv', s3)"
      "r = waiting ev iv' s3 script"
proof (cases "w = RaisesTypeError")
  case True
  then have "r = Returned (log DEBUG CaughtTypeError s1)"
    by (simp add: r_def s1_def)
  with True show ?thesis by (rule raised)
next
  case w: False
  show ?thesis
  proof (cases "w = Pending \<and> \<not> flush_event s1")
    case True
    with w have "r = Waiting s1" by (simp add: r_def s1_def)
    with True show ?thesis using blocked by blast
  next
    case False
    then have p: "(w = Pending \<and> \<not> flush_event (foldl perform s calls)) = False"
      by (simp add: s1_def)
    have u: "r = (if running s2 \<or> length (queue s2) > 0 then
                   (case cycle ev s2 during of
                      (Inl e, s3) \<Rightarrow> Escaped e s3
                    | (Inr interval', s3) \<Rightarrow> waiting ev interval' s3 script)
                 else Exited s2)"
      unfolding r_def s2_def s1_def waiting.simps Let_def p using w by simp
    show ?thesis
    proof (cases "running s2 \<or> queue s2 \<noteq> []")
      case False
      with u have "r = Exited s2" by simp
      with False show ?thesis using exited by blast
    next
      case True
      obtain x s3 where c: "cycle ev s2 during = (x, s3)" by (cases "cycle ev s2 during")
      show ?thesis
      proof (cases x)
        case (Inl e)
        with u True c have "r = Escaped e s3" by simp
        with True c Inl show ?thesis using escaped by blast
      next
        case (Inr iv')
        with u True c have "r = waiting ev iv' s3 script" by simp
        with True c Inr show ?thesis using passed by blast
      qed
    qed
  qed
qed

declare waiting.simps(2) [simp del]

text \<open>Once the interval has been found, no later lookup fails: the loop cannot be left by
  an exception.\<close>

lemma waiting_never_escapes:
  "config s ''interval'' = Some iv0 \<Longrightarrow> waiting ev iv s script \<noteq> Escaped e s'"
proof (induction script arbitrary: s iv)
  case Nil
  show ?case by simp
next
  case (Cons r script)
  obtain calls w during where r: "r = (calls, w, during)" by (cases r)
  let ?s1 = "foldl perform s calls"
  let ?s2 = "log DEBUG (if flush_event ?s1 then FlushingOnTrigger else FlushingAfterTimeout iv) ?s1"
  have f: "fst (cycle ev ?s2 during) = Inr iv0"
    using Cons.prems by (simp add: cycle_result)
  have c: "config (snd (cycle ev ?s2 during)) ''interval'' = Some iv0"
    using Cons.prems by simp
  show ?case
  proof (cases rule: waiting_step [of w ev iv s calls during script])
    case (escaped e' s3)
    with f show ?thesis by simp
  next
    case (passed iv' s3)
    with c have "config s3 ''interval'' = Some iv0" by simp
    from Cons.IH [OF this] passed show ?thesis by (simp add: r)
  qed (simp_all add: r)
qed

lemma waiting_exited:
  "waiting ev iv s script = Exited s' \<Longrightarrow> \<not> running s' \<and> queue s' = []"
proof (induction script arbitrary: s iv)
  case Nil
  then show ?case by simp
next
  case (Cons r script)
  obtain calls w during where r: "r = (calls, w, during)" by (cases r)
  from Cons.prems have p: "waiting ev iv s ((calls, w, during) # script) = Exited s'"
    by (simp add: r)
  show ?case
  proof (cases rule: waiting_step [of w ev iv s calls during script])
    case (passed iv' s3)
    with p have "waiting ev iv' s3 script = Exited s'" by simp
    then show ?thesis by (rule Cons.IH)
  qed (use p in auto)
qed

lemma waiting_bulk_calls:
  "\<exists>more. bulk_calls (final (waiting ev iv s script)) = bulk_calls s @ more"
proof (induction script arbitrary: s iv)
  case Nil
  show ?case by simp
next
  case (Cons r script)
  obtain calls w during where r: "r = (calls, w, during)" by (cases r)
  let ?s1 = "foldl perform s calls"
  let ?s2 = "log DEBUG (if flush_event ?s1 then FlushingOnTrigger else FlushingAfterTimeout iv) ?s1"
  have b: "bulk_calls s3 = bulk_calls s @ [batch ?s2]" if "cycle ev ?s2 during = (x, s3)" for x s3
    using cycle_fields(3) [of ev ?s2 during] that by simp
  show ?case
  proof (cases rule: waiting_step [of w ev iv s calls during script])
    case (escaped e s3)
    with b show ?thesis by (simp add: r)
  next
    case (passed iv' s3)
    obtain more where "bulk_calls (final (waiting ev iv' s3 script)) = bulk_calls s3 @ more"
      using Cons.IH by blast
    with passed b show ?thesis by (simp add: r)
  qed (simp_all add: r)
qed

lemma waiting_returned:
  "waiting ev iv s script = Returned s' \<Longrightarrow> last (logger s') = (DEBUG, CaughtTypeError)"
proof (induction script arbitrary: s iv)
  case Nil
  then show ?case by simp
next
  case (Cons r script)
  obtain calls w during where r: "r = (calls, w, during)" by (cases r)
  from Cons.prems have p: "waiting ev iv s ((calls, w, during) # script) = Returned s'"
    by (simp add: r)
  show ?case
  proof (cases rule: waiting_step [of w ev iv s calls during script])
    case (passed iv' s3)
    with p have "waiting ev iv' s3 script = Returned s'" by simp
    then show ?thesis by (rule Cons.IH)
  qed (use p in auto)
qed

lemma run_unfold:
  "running s \<or> queue s \<noteq> [] \<Longrightarrow> config s ''interval'' = Some iv \<Longrightarrow>
   run ev s during script = waiting ev iv (snd (cycle ev s during)) script"
  using cycle_result [of ev s during] by (cases "cycle ev s during") (simp add: run_def)

lemma idle_eq:
  "idle = (init sample_config)\<lparr>logger := [(DEBUG, FlushedLogs 0)], bulk_calls := [[]]\<rparr>"
  by (simp add: idle_def cycle_def flush_def swap_def Let_def init_def env_ok_def log_def
        sample_config_def)

lemma triggers:
  "foldl perform (trigger_flush s) (replicate n Trigger)
     = (trigger_flush s)\<lparr>logger := logger s @ replicate (Suc n) (DEBUG, FlushTriggered)\<rparr>"
proof (induction n arbitrary: s)
  case 0
  show ?case by (simp add: trigger_flush_def log_def)
next
  case (Suc n)
  have "foldl perform (trigger_flush s) (replicate (Suc n) Trigger)
      = foldl perform (trigger_flush (trigger_flush s)) (replicate n Trigger)"
    by simp
  also have "\<dots> = (trigger_flush (trigger_flush s))
      \<lparr>logger := logger (trigger_flush s) @ replicate (Suc n) (DEBUG, FlushTriggered)\<rparr>"
    by (rule Suc.IH)
  also have "\<dots> = (trigger_flush s)
      \<lparr>logger := logger s @ replicate (Suc (Suc n)) (DEBUG, FlushTriggered)\<rparr>"
    by (simp add: trigger_flush_def log_def)
  finally show ?case .
qed

lemma perform_logger: "\<exists>l. logger (perform s c) = logger s @ l"
proof (cases c)
  case (Enqueue suffix doc_type body pps)
  then show ?thesis
    by (auto simp: queue_index_def Let_def log_def trigger_flush_def
          split: option.splits pyval.splits)
next
  case Trigger
  then show ?thesis by simp
next
  case Stop
  then show ?thesis by simp
qed

lemma perform_all_logger: "\<exists>l. logger (foldl perform s cs) = logger s @ l"
proof (induction cs arbitrary: s)
  case Nil
  show ?case by simp
next
  case (Cons c cs)
  obtain l1 where "logger (perform s c) = logger s @ l1"
    using perform_logger by blast
  moreover obtain l2 where "logger (foldl perform (perform s c) cs) = logger (perform s c) @ l2"
    using Cons.IH by blast
  ultimately have "logger (foldl perform s (c # cs)) = logger s @ (l1 @ l2)" by simp
  then show ?case by blast
qed

text \<open>The sample runs, evaluated.\<close>

lemmas eval_defs = run_def waiting.simps cycle_def flush_def swap_def Let_def init_def
  sample_config_def env_ok_def env_broken_def log_def queue_index_def trigger_flush_def
  run_postprocessors_def idle_eq one_queued_eq batch_def

lemma run_stop:
  "run env_ok (init sample_config) [] [([Stop], Expires, [])]
     = Exited (idle\<lparr>running := False,
                    logger := [(DEBUG, FlushedLogs 0), (DEBUG, FlushingAfterTimeout (PInt 30))]\<rparr>)"
  by (simp add: eval_defs)

lemma run_type_error:
  "run env_ok (init sample_config) [] [([Trigger], RaisesTypeError, [])]
     = Returned (idle\<lparr>flush_event := True,
                      logger := [(DEBUG, FlushedLogs 0), (DEBUG, FlushTriggered),
                                 (DEBUG, CaughtTypeError)]\<rparr>)"
  by (simp add: eval_defs)

lemma run_without_interval:
  "run env_ok (init (sample_config(''interval'' := None))) [] []
     = Escaped (KeyError ''interval'')
         ((init (sample_config(''interval'' := None)))
            \<lparr>logger := [(DEBUG, FlushedLogs 0)], bulk_calls := [[]]\<rparr>)"
  by (simp add: eval_defs)

lemma flush_broken:
  "fst (flush env_broken one_queued) = Inl (OtherException ''bulk index error'')"
  by (simp add: eval_defs)

lemma idle_fields:
  "running idle" "queue idle = []" "config idle ''interval'' = Some (PInt 30)"
  "bulk_calls idle = [[]]" "batch idle = []" "\<not> flush_event idle"
  "logger idle = [(DEBUG, FlushedLogs 0)]"
  by (simp_all add: idle_eq init_def sample_config_def batch_def)

lemma idle_enqueue_stop:
  "foldl perform idle [Enqueue ''a'' (PStr ''t'') (PInt 1) None, Stop]
     = idle\<lparr>queue := [(\<lparr>x_op_type = ''index'', x_index = ''log-a'', x_type = PStr ''t'',
                          x_source = PInt 1\<rparr>, [])],
            running := False,
            logger := [(DEBUG, FlushedLogs 0), (DEBUG, PutAction 1 (PStr ''t''))]\<rparr>"
  by (simp add: eval_defs)

lemma idle_stop: "foldl perform idle [Stop] = idle\<lparr>running := False\<rparr>"
  by simp

lemma idle_triggers_in_wait:
  "waiting env_ok (PInt 30) idle [([Trigger, Trigger], Pending, []), ([], Pending, [])]
     = Waiting (idle\<lparr>logger := [(DEBUG, FlushedLogs 0), (DEBUG, FlushTriggered),
                                 (DEBUG, FlushTriggered), (DEBUG, FlushingOnTrigger),
                                 (DEBUG, FlushedLogs 0)],
                     bulk_calls := [[], []]\<rparr>)"
  by (simp add: eval_defs)

lemma idle_triggers_in_flush:
  "waiting env_ok (PInt 30) idle [([], Expires, [Trigger, Trigger]), ([], Pending, [])]
     = Waiting (idle\<lparr>logger := [(DEBUG, FlushedLogs 0), (DEBUG, FlushingAfterTimeout (PInt 30)),
                                 (DEBUG, FlushedLogs 0), (DEBUG, FlushTriggered),
                                 (DEBUG, FlushTriggered)],
                     bulk_calls := [[], []]\<rparr>)"
  by (simp add: eval_defs)

lemma idle_triggers_after_stop:
  "waiting env_ok (PInt 30) (idle\<lparr>running := False\<rparr>) [([Trigger, Trigger], Pending, [])]
     = Exited (idle\<lparr>running := False, flush_event := True,
                    logger := [(DEBUG, FlushedLogs 0), (DEBUG, FlushTriggered),
                               (DEBUG, FlushTriggered), (DEBUG, FlushingOnTrigger)]\<rparr>)"
  by (simp add: eval_defs)

section \<open>The accessor for the last exception\<close>

text \<open>
  C10. \<^verbatim>\<open>last_exception\<close> is \<^verbatim>\<open>None\<close> when the list of exceptions is empty and the
  exception appended last otherwise. It is a function of the state to an optional
  exception: it has no exceptional result and gives no state back, so it neither raises nor
  changes the list.
\<close>

theorem last_exception_returns_latest:
  "last_exception (s\<lparr>exceptions := []\<rparr>) = None \<and>
   last_exception (s\<lparr>exceptions := es @ [e]\<rparr>) = Some e"
  by (simp add: last_exception_def)

section \<open>Postprocessors that raise\<close>

text \<open>
  C3. When the postprocessor \<open>p\<close> raises on the body that the postprocessors \<open>ps\<close> before
  it have produced, the body after \<open>p\<close> is that body, the postprocessors \<open>qs\<close> after it
  run on it, the error is logged, and the batch comes out whole: every record of it is
  processed, this one as if \<open>p\<close> were not in its list. \<^verbatim>\<open>_run_postprocessors\<close> has no
  exceptional result.
\<close>

theorem failing_postprocessor_is_skipped:
  assumes "p (deepcopy (x_source (fst (run_postprocessors s (a, ps))))) = Inl e"
  shows "x_source (fst (run_postprocessors s (a, ps @ [p])))
           = x_source (fst (run_postprocessors s (a, ps)))
       \<and> fst (run_postprocessors s (a, ps @ p # qs))
           = fst (run_postprocessors s (fst (run_postprocessors s (a, ps)), qs))
       \<and> fst (map_run_postprocessors s (q1 @ (a, ps @ p # qs) # q2))
           = map (\<lambda>i. fst (run_postprocessors s i)) (q1 @ (a, ps @ qs) # q2)
       \<and> (ERROR, PostprocessorRaised e)
           \<in> set (logger (snd (run_postprocessors s (a, ps @ p # qs))))"
proof -
  obtain a' s' where r: "postprocess s a ps = (a', s')"
    by (cases "postprocess s a ps")
  let ?s = "log ERROR (PostprocessorRaised e) s'"
  from assms r have p: "p (deepcopy (x_source a')) = Inl e"
    by (simp add: run_postprocessors_def)
  have one: "postprocess s a (ps @ [p]) = (a', ?s)"
    by (simp add: postprocess_append r p)
  have more: "postprocess s a (ps @ p # qs) = postprocess ?s a' qs"
    by (simp add: postprocess_append r p)
  have skip: "fst (postprocess s a (ps @ p # qs)) = fst (postprocess s a (ps @ qs))"
    using postprocess_action [of ?s a' qs s'] by (simp add: postprocess_append r p)
  obtain l where l: "snd (postprocess ?s a' qs) = ?s\<lparr>logger := logger ?s @ l\<rparr>"
    using postprocess_state by blast
  have c1: "x_source (fst (run_postprocessors s (a, ps @ [p])))
      = x_source (fst (run_postprocessors s (a, ps)))"
    by (simp add: run_postprocessors_def one r)
  have c2: "fst (run_postprocessors s (a, ps @ p # qs))
      = fst (run_postprocessors s (fst (run_postprocessors s (a, ps)), qs))"
    using postprocess_action [of ?s a' qs s] by (simp add: run_postprocessors_def more r)
  have c3: "fst (map_run_postprocessors s (q1 @ (a, ps @ p # qs) # q2))
      = map (\<lambda>i. fst (run_postprocessors s i)) (q1 @ (a, ps @ qs) # q2)"
    using skip by (simp add: map_run_action [of s _ s] run_postprocessors_def)
  have c4: "(ERROR, PostprocessorRaised e)
      \<in> set (logger (snd (run_postprocessors s (a, ps @ p # qs))))"
    by (simp add: run_postprocessors_def more l)
  from c1 c2 c3 c4 show ?thesis by blast
qed

theorem failing_postprocessor_is_skipped_witness:
  "broken (deepcopy (x_source (fst (run_postprocessors (init sample_config)
       (sample_action, [wrap]))))) = Inl (OtherException ''boom'')
   \<and> x_source (fst (run_postprocessors (init sample_config)
       (sample_action, [wrap, broken, wrap]))) = PList [PList [PInt 1]]
   \<and> fst (map_run_postprocessors (init sample_config)
       [(sample_action, [wrap, broken, wrap])])
       = [sample_action\<lparr>x_source := PList [PList [PInt 1]]\<rparr>]"
  using failing_postprocessor_is_skipped
    [of broken "init sample_config" sample_action "[wrap]" "OtherException ''boom''"
        "[wrap]" "[]" "[]"]
  by (simp add: run_postprocessors_def wrap_def broken_def deepcopy_def sample_action_def)

section \<open>Enqueueing and flushing\<close>

text \<open>
  C1. From an empty queue, the calls of \<^verbatim>\<open>queue_index\<close> for the requests \<open>rs\<close> leave the
  queue holding one item for each request, in the order of the calls. The flush that
  follows hands \<^verbatim>\<open>_bulk\<close> one batch, with one action for each request in that order
  (the item, postprocessed), and the queue is empty after the swap and after the flush,
  whatever the environment \<open>ev\<close> makes of the bulk write.
\<close>

theorem flush_sends_what_was_enqueued:
  assumes "config s ''index_prefix'' = Some (PStr prefix)" and "queue s = []"
  shows "queue (queue_index_all s rs) = map (queued prefix) rs
       \<and> queue (snd (swap (queue_index_all s rs))) = []
       \<and> bulk_calls (snd (flush ev (queue_index_all s rs)))
           = bulk_calls s @ [map (\<lambda>r. fst (run_postprocessors s (queued prefix r))) rs]
       \<and> length (last (bulk_calls (snd (flush ev (queue_index_all s rs))))) = length rs
       \<and> queue (snd (flush ev (queue_index_all s rs))) = []"
proof -
  have q: "queue (queue_index_all s rs) = map (queued prefix) rs"
    using assms by (simp add: queue_index_all_queue)
  have b: "batch (queue_index_all s rs) = map (\<lambda>r. fst (run_postprocessors s (queued prefix r))) rs"
    using map_run_action [of s "map (queued prefix) rs" "queue_index_all s rs"]
          map_run_action [of s "map (queued prefix) rs" s]
    by (simp add: batch_def q comp_def)
  show ?thesis by (simp add: q b swap_def)
qed

theorem flush_sends_what_was_enqueued_witness:
  "config (init sample_config) ''index_prefix'' = Some (PStr ''log-'')
   \<and> queue (init sample_config) = []
   \<and> bulk_calls (snd (flush env_down (queue_index_all (init sample_config)
        [(''a'', PStr ''t'', PInt 1, Some [wrap]), (''b'', PStr ''u'', PInt 2, None)])))
      = [[\<lparr>x_op_type = ''index'', x_index = ''log-a'', x_type = PStr ''t'', x_source = PList [PInt 1]\<rparr>,
          \<lparr>x_op_type = ''index'', x_index = ''log-b'', x_type = PStr ''u'', x_source = PInt 2\<rparr>]]"
  using flush_sends_what_was_enqueued [of "init sample_config" "''log-''"
     "[(''a'', PStr ''t'', PInt 1, Some [wrap]), (''b'', PStr ''u'', PInt 2, None)]" env_down]
  by (simp add: init_def sample_config_def run_postprocessors_def queued_def wrap_def deepcopy_def)

text \<open>
  C4, as amended. With a string for \<^verbatim>\<open>index_prefix\<close> and \<^verbatim>\<open>max_queue_length\<close> present with
  the value \<^verbatim>\<open>None\<close>, \<^verbatim>\<open>queue_index\<close> returns, and all it does is append the item and
  hand one debug record to the logger: the event and everything else stay as they were.
\<close>

theorem queue_index_without_limit:
  assumes "config s ''index_prefix'' = Some (PStr prefix)"
      and "config s ''max_queue_length'' = Some PNone"
  shows "queue_index s suffix doc_type body postprocessors
         = (Inr (), s\<lparr>queue := queue s @ [queued prefix (suffix, doc_type, body, postprocessors)],
                      logger := logger s @ [(DEBUG, PutAction (Suc (length (queue s))) doc_type)]\<rparr>)"
  using assms by (simp add: queue_index_def Let_def queued_def log_def)

theorem queue_index_without_limit_witness:
  "config (init sample_config) ''index_prefix'' = Some (PStr ''log-'')
   \<and> config (init sample_config) ''max_queue_length'' = Some PNone
   \<and> queue_index (init sample_config) ''a'' (PStr ''t'') (PInt 1) None
      = (Inr (), (init sample_config)
           \<lparr>queue := [(\<lparr>x_op_type = ''index'', x_index = ''log-a'', x_type = PStr ''t'', x_source = PInt 1\<rparr>, [])],
            logger := [(DEBUG, PutAction 1 (PStr ''t''))]\<rparr>)"
  using queue_index_without_limit [of "init sample_config" "''log-''" "''a''" "PStr ''t''" "PInt 1" None]
  by (simp add: init_def sample_config_def queued_def)

text \<open>
  C4 as stated takes in the configuration that has no key \<^verbatim>\<open>max_queue_length\<close>. There
  the lookup \<^verbatim>\<open>self.config['max_queue_length']\<close> raises \<^verbatim>\<open>KeyError\<close>.
\<close>

theorem queue_index_unset_limit_counterexample:
  "[''index_prefix'' \<mapsto> PStr ''log-''] ''max_queue_length'' = None
   \<and> fst (queue_index (init [''index_prefix'' \<mapsto> PStr ''log-'']) ''a'' (PStr ''t'') (PInt 1) None)
      = Inl (KeyError ''max_queue_length'')"
  by (simp add: queue_index_def init_def Let_def log_def)

text \<open>
  C5. With \<^verbatim>\<open>max_queue_length\<close> the integer \<open>k\<close>, the call that brings the length of the
  queue to \<open>k\<close> (or beyond) returns with the event set. The call does not flush: the new
  item is in the queue and no bulk write has been made.
\<close>

theorem queue_index_signals_at_limit:
  assumes "config s ''index_prefix'' = Some (PStr prefix)"
      and "config s ''max_queue_length'' = Some (PInt k)"
      and "k \<le> int (length (queue s)) + 1"
  shows "queue_index s suffix doc_type body postprocessors
         = (Inr (), s\<lparr>queue := queue s @ [queued prefix (suffix, doc_type, body, postprocessors)],
                      logger := logger s @ [(DEBUG, PutAction (Suc (length (queue s))) doc_type),
                                            (DEBUG, HitMaxQueueLength), (DEBUG, FlushTriggered)],
                      flush_event := True\<rparr>)"
  using assms by (simp add: queue_index_def Let_def queued_def log_def trigger_flush_def)

theorem queue_index_signals_at_limit_witness:
  "(sample_config(''max_queue_length'' \<mapsto> PInt 2)) ''index_prefix'' = Some (PStr ''log-'')
   \<and> (2::int) \<le> int (length (queue (queue_index_all (init (sample_config(''max_queue_length'' \<mapsto> PInt 2))) [(''a'', PStr ''t'', PInt 1, None)]))) + 1
   \<and> \<not> flush_event (queue_index_all (init (sample_config(''max_queue_length'' \<mapsto> PInt 2))) [(''a'', PStr ''t'', PInt 1, None)])
   \<and> flush_event (snd (queue_index (queue_index_all (init (sample_config(''max_queue_length'' \<mapsto> PInt 2))) [(''a'', PStr ''t'', PInt 1, None)])
        ''b'' (PStr ''t'') (PInt 2) None))
   \<and> bulk_calls (snd (queue_index (queue_index_all (init (sample_config(''max_queue_length'' \<mapsto> PInt 2))) [(''a'', PStr ''t'', PInt 1, None)])
        ''b'' (PStr ''t'') (PInt 2) None)) = []"
  using queue_index_signals_at_limit [of "queue_index_all (init (sample_config(''max_queue_length'' \<mapsto> PInt 2))) [(''a'', PStr ''t'', PInt 1, None)]"
     "''log-''" 2 "''b''" "PStr ''t''" "PInt 2" None]
  by (simp add: init_def sample_config_def queue_index_def Let_def log_def)

section \<open>The fallback file\<close>

text \<open>
  C2, as amended. When the bulk write raises \<^verbatim>\<open>TransportError\<close>, the fallback file opens,
  every action of the batch serialises (to \<open>text a\<close>), and every write and the close
  succeed, then \<^verbatim>\<open>_flush\<close> returns and the file has grown by one line for each action of
  the batch, in the order of the batch: the serialised action (operation type, index, type
  and body), then a newline. When the bulk write does not raise \<^verbatim>\<open>TransportError\<close>, no
  file changes.
\<close>

theorem fallback_file_holds_the_actions:
  "(e_bulk ev (length (bulk_calls s)) (batch s) = Some TransportError
      \<and> config s ''fallback_log_file'' = Some path
      \<and> e_open ev (length (bulk_calls s)) path = None
      \<and> (\<forall>a \<in> set (batch s). e_dumps ev (action_dict a) = Inr (text a))
      \<and> (\<forall>j < length (batch s). e_write ev (length (bulk_calls s)) j = None)
      \<and> e_close ev (length (bulk_calls s)) = None
    \<longrightarrow> fst (flush ev s) = Inr ()
      \<and> files (snd (flush ev s))
          = (files s)(path := files s path @ concat (map (\<lambda>a. text a @ [CHR 0x0A]) (batch s))))
   \<and> (e_bulk ev (length (bulk_calls s)) (batch s) \<noteq> Some TransportError
    \<longrightarrow> files (snd (flush ev s)) = files s)"
proof (intro conjI impI)
  assume "e_bulk ev (length (bulk_calls s)) (batch s) \<noteq> Some TransportError"
  then show "files (snd (flush ev s)) = files s" by (rule flush_files_kept)
next
  assume a: "e_bulk ev (length (bulk_calls s)) (batch s) = Some TransportError
      \<and> config s ''fallback_log_file'' = Some path
      \<and> e_open ev (length (bulk_calls s)) path = None
      \<and> (\<forall>a \<in> set (batch s). e_dumps ev (action_dict a) = Inr (text a))
      \<and> (\<forall>j < length (batch s). e_write ev (length (bulk_calls s)) j = None)
      \<and> e_close ev (length (bulk_calls s)) = None"
  then have w: "fst (flush ev s) = Inr ()
      \<and> files (snd (flush ev s))
          = (files s)(path := files s path @ concat (map (\<lambda>a. text a @ [CHR 0x0A]) (batch s)))"
    by (intro flush_fallback_written) simp_all
  from w show "fst (flush ev s) = Inr ()" by simp
  from w show "files (snd (flush ev s))
      = (files s)(path := files s path @ concat (map (\<lambda>a. text a @ [CHR 0x0A]) (batch s)))"
    by simp
qed

theorem fallback_file_holds_the_actions_witness:
  \<open>files (snd (flush env_down one_queued)) (PStr ''/tmp/lj.log'')
     = ''{"_op_type": "index", "_index": "log-a", "_type": "t", "_source": {"m": "hi"}}'' @ [CHR 0x0A]
   \<and> files (snd (flush env_ok one_queued)) (PStr ''/tmp/lj.log'') = []\<close>
  using fallback_file_holds_the_actions
          [of env_down one_queued "PStr ''/tmp/lj.log''" "\<lambda>a. encode (action_dict a)"]
        fallback_file_holds_the_actions
          [of env_ok one_queued "PStr ''/tmp/lj.log''" "\<lambda>a. encode (action_dict a)"]
  by (simp add: one_queued_batch env_down_def env_ok_def dumps_def action_dict_def quote_def)
     (simp add: one_queued_eq init_def sample_config_def)

text \<open>
  C2 as stated has the line hold the body of the record and nothing else. For one queued
  record with the body \<^verbatim>\<open>{"m": "hi"}\<close> and the store down, the line in the file is not the
  serialised body: \<^verbatim>\<open>dumps\<close> is applied to the action. (The line is given with the keys
  in the order of the dict literal; in any other order it is as far from the body alone.)
\<close>

theorem fallback_line_is_not_the_body_counterexample:
  \<open>e_bulk env_down 0 (batch one_queued) = Some TransportError
   \<and> map (x_source \<circ> fst) (queue one_queued) = [PDict [(''m'', PStr ''hi'')]]
   \<and> dumps (PDict [(''m'', PStr ''hi'')]) = Inr ''{"m": "hi"}''
   \<and> files (snd (flush env_down one_queued)) (PStr ''/tmp/lj.log'')
       = ''{"_op_type": "index", "_index": "log-a", "_type": "t", "_source": {"m": "hi"}}''
         @ [CHR 0x0A]
   \<and> files (snd (flush env_down one_queued)) (PStr ''/tmp/lj.log'')
       \<noteq> ''{"m": "hi"}'' @ [CHR 0x0A]\<close>
  using flush_fallback_written
          [of env_down one_queued "PStr ''/tmp/lj.log''" "\<lambda>a. encode (action_dict a)"]
  by (simp add: one_queued_batch env_down_def env_ok_def dumps_def action_dict_def quote_def)
     (simp add: one_queued_eq init_def sample_config_def)



section \<open>How the loop ends\<close>




section \<open>Repeated triggers\<close>

text \<open>
  C8, as amended. In every state, one more call of \<^verbatim>\<open>trigger_flush\<close> after the first
  changes nothing but the log (one debug record for each call): the dispatcher is as after
  one call. One or more calls made during a wait, with \<^verbatim>\<open>running\<close> true or the queue not
  empty, end that wait, also before the interval has passed, and are followed by one
  flush; then the event is clear and the loop stays in its next wait until the interval has
  passed, as a loop does that no call reaches. With \<^verbatim>\<open>running\<close> false and the queue empty
  the calls end the wait and the loop, without a flush. Nothing is said here of calls made
  while a flush is under way.
\<close>

theorem repeated_triggers_collapse:
  "foldl perform s (replicate (Suc n) Trigger)
     = (trigger_flush s)\<lparr>logger := logger s @ replicate (Suc n) (DEBUG, FlushTriggered)\<rparr>
   \<and> ((running s \<or> queue s \<noteq> []) \<and> config s ''interval'' = Some iv' \<and> w \<noteq> RaisesTypeError
      \<longrightarrow> waiting ev iv s ((replicate (Suc n) Trigger, w, []) # ([], Pending, during) # script)
            = Waiting (snd (cycle ev (log DEBUG FlushingOnTrigger
                                       (foldl perform s (replicate (Suc n) Trigger))) []))
        \<and> bulk_calls (final (waiting ev iv s
              ((replicate (Suc n) Trigger, w, []) # ([], Pending, during) # script)))
            = bulk_calls s @ [batch s]
        \<and> \<not> flush_event (final (waiting ev iv s
              ((replicate (Suc n) Trigger, w, []) # ([], Pending, during) # script))))
   \<and> (\<not> flush_event s \<longrightarrow> waiting ev iv s (([], Pending, during) # script) = Waiting s)
   \<and> (\<not> running s \<and> queue s = [] \<and> w \<noteq> RaisesTypeError
      \<longrightarrow> waiting ev iv s ((replicate (Suc n) Trigger, w, during) # script)
            = Exited (log DEBUG FlushingOnTrigger (foldl perform s (replicate (Suc n) Trigger)))
        \<and> bulk_calls (final (waiting ev iv s ((replicate (Suc n) Trigger, w, during) # script)))
            = bulk_calls s)"
proof -
  let ?s1 = "foldl perform s (replicate (Suc n) Trigger)"
  let ?s2 = "log DEBUG FlushingOnTrigger ?s1"
  have t: "?s1 = (trigger_flush s)\<lparr>logger := logger s @ replicate (Suc n) (DEBUG, FlushTriggered)\<rparr>"
    using triggers [of s n] by simp
  have f: "flush_event ?s1" "running ?s2 = running s" "queue ?s2 = queue s"
      "config ?s2 = config s" "bulk_calls ?s2 = bulk_calls s"
    unfolding t by simp_all
  have b: "batch ?s2 = batch s"
    by (rule batch_queue) (rule f(3))
  have idle: "waiting ev iv0 s0 (([], Pending, during) # script) = Waiting s0"
    if "\<not> flush_event s0" for iv0 s0
    using that by (simp add: waiting.simps)
  have live: "waiting ev iv s ((replicate (Suc n) Trigger, w, []) # ([], Pending, during) # script)
            = Waiting (snd (cycle ev ?s2 []))"
    if a: "(running s \<or> queue s \<noteq> []) \<and> config s ''interval'' = Some iv' \<and> w \<noteq> RaisesTypeError"
  proof -
    obtain s3 where s3: "cycle ev ?s2 [] = (Inr iv', s3)"
      using cycle_result [of ev ?s2 "[]"] a f(4) by (cases "cycle ev ?s2 []") simp
    then have "\<not> flush_event s3"
      using cycle_fields(2) [of ev ?s2 "[]"] by simp
    then have "waiting ev iv' s3 (([], Pending, during) # script) = Waiting s3"
      by (rule idle)
    moreover have "waiting ev iv s ((replicate (Suc n) Trigger, w, []) # ([], Pending, during) # script)
        = waiting ev iv' s3 (([], Pending, during) # script)"
      using a f(1-3) s3 by (simp add: waiting.simps(2) Let_def del: replicate.simps foldl.simps)
    ultimately show ?thesis using s3 by simp
  qed
  have gone: "waiting ev iv s ((replicate (Suc n) Trigger, w, during) # script) = Exited ?s2"
    if a: "\<not> running s \<and> queue s = [] \<and> w \<noteq> RaisesTypeError"
    using a f(1-3) by (simp add: waiting.simps(2) Let_def del: replicate.simps foldl.simps)
  show ?thesis
    using t live gone idle [of s iv] b f(5)
    by (simp del: replicate.simps foldl.simps)
qed

theorem repeated_triggers_collapse_witness:
  "(running idle \<or> queue idle \<noteq> []) \<and> config idle ''interval'' = Some (PInt 30)
   \<and> \<not> flush_event idle
   \<and> foldl perform idle [Trigger, Trigger]
       = idle\<lparr>flush_event := True,
              logger := [(DEBUG, FlushedLogs 0), (DEBUG, FlushTriggered), (DEBUG, FlushTriggered)]\<rparr>
   \<and> waiting env_ok (PInt 30) idle [([Trigger, Trigger], Pending, []), ([], Pending, [])]
       = Waiting (idle\<lparr>logger := [(DEBUG, FlushedLogs 0), (DEBUG, FlushTriggered),
                                   (DEBUG, FlushTriggered), (DEBUG, FlushingOnTrigger),
                                   (DEBUG, FlushedLogs 0)],
                       bulk_calls := [[], []]\<rparr>)
   \<and> bulk_calls (final (waiting env_ok (PInt 30) idle
         [([Trigger, Trigger], Pending, []), ([], Pending, [])])) = [[], []]
   \<and> waiting env_ok (PInt 30) idle [([], Pending, []), ([], Pending, [])] = Waiting idle
   \<and> \<not> running (idle\<lparr>running := False\<rparr>) \<and> queue (idle\<lparr>running := False\<rparr>) = []
   \<and> bulk_calls (final (waiting env_ok (PInt 30) (idle\<lparr>running := False\<rparr>)
         [([Trigger, Trigger], Pending, [])])) = [[]]"
proof -
  have r: "replicate (Suc (Suc 0)) Trigger = [Trigger, Trigger]" by simp
  note t = repeated_triggers_collapse [where n = "Suc 0" and ev = env_ok and iv = "PInt 30",
      unfolded r]
  from t [where s = idle]
  have a: "foldl perform idle [Trigger, Trigger]
      = (trigger_flush idle)\<lparr>logger := logger idle @ replicate (Suc (Suc 0)) (DEBUG, FlushTriggered)\<rparr>"
    by (rule conjunct1)
  have a': "foldl perform idle [Trigger, Trigger]
       = idle\<lparr>flush_event := True,
              logger := [(DEBUG, FlushedLogs 0), (DEBUG, FlushTriggered), (DEBUG, FlushTriggered)]\<rparr>"
    unfolding a by (simp add: trigger_flush_def log_def idle_fields)
  have p: "Pending \<noteq> RaisesTypeError" by simp
  from t [where s = idle and iv' = "PInt 30" and w = Pending and during = "[]" and script = "[]"]
    idle_fields(1,3) p
  have b: "bulk_calls (final (waiting env_ok (PInt 30) idle
         [([Trigger, Trigger], Pending, []), ([], Pending, [])])) = bulk_calls idle @ [batch idle]"
    by blast
  from t [where s = idle and during = "[]" and script = "[([], Pending, [])]"] idle_fields(6)
  have c: "waiting env_ok (PInt 30) idle [([], Pending, []), ([], Pending, [])] = Waiting idle"
    by blast
  have n: "\<not> running (idle\<lparr>running := False\<rparr>)" "queue (idle\<lparr>running := False\<rparr>) = []"
    by (simp_all add: idle_fields)
  from t [where s = "idle\<lparr>running := False\<rparr>" and w = Pending and during = "[]" and script = "[]"]
    n p
  have d: "bulk_calls (final (waiting env_ok (PInt 30) (idle\<lparr>running := False\<rparr>)
         [([Trigger, Trigger], Pending, [])])) = bulk_calls (idle\<lparr>running := False\<rparr>)"
    by blast
  show ?thesis
    using a' b c d idle_fields idle_triggers_in_wait by simp
qed

text \<open>
  C8 as stated holds for every state and for every moment between two returns of the
  wait. After a shutdown request and with an empty queue the two calls wake the loop, its
  test fails, and there is no flush at all. And two calls made while a flush is under way
  set an event that the loop clears when that flush is done: the next wait lasts the whole
  interval, and the only flushes are the first one and the one after the timeout. (This
  second run is against the docstring of \<^verbatim>\<open>trigger_flush\<close>, by which a call skips the
  countdown to the next flush.)
\<close>

theorem triggers_lost_counterexample:
  "waiting env_ok (PInt 30) (idle\<lparr>running := False\<rparr>) [([Trigger, Trigger], Pending, [])]
     = Exited (idle\<lparr>running := False, flush_event := True,
                    logger := [(DEBUG, FlushedLogs 0), (DEBUG, FlushTriggered),
                               (DEBUG, FlushTriggered), (DEBUG, FlushingOnTrigger)]\<rparr>)
   \<and> bulk_calls (final (waiting env_ok (PInt 30) (idle\<lparr>running := False\<rparr>)
        [([Trigger, Trigger], Pending, [])])) = bulk_calls idle
   \<and> waiting env_ok (PInt 30) idle [([], Expires, [Trigger, Trigger]), ([], Pending, [])]
     = Waiting (idle\<lparr>logger := [(DEBUG, FlushedLogs 0), (DEBUG, FlushingAfterTimeout (PInt 30)),
                                 (DEBUG, FlushedLogs 0), (DEBUG, FlushTriggered),
                                 (DEBUG, FlushTriggered)],
                     bulk_calls := [[], []]\<rparr>)
   \<and> running idle"
  by (simp add: idle_triggers_after_stop idle_triggers_in_flush idle_fields)

section \<open>Shutdown\<close>

text \<open>
  C9, as amended. When a wait returns (the interval has passed, or the event is set) and
  the queue is not empty, the next thing the loop does is flush that queue, also with
  \<^verbatim>\<open>running\<close> false. When a wait returns with \<^verbatim>\<open>running\<close> false and the queue empty, the
  loop ends there. A loop started with \<^verbatim>\<open>running\<close> true leaves through its test only with
  \<^verbatim>\<open>running\<close> false and the queue empty, and after the flush it started with. A wait that
  raises \<^verbatim>\<open>TypeError\<close> instead of returning ends \<^verbatim>\<open>run\<close> at once, whatever the queue
  holds: the queue stays as it is and no flush is made.
\<close>

theorem shutdown_drains_the_queue:
  "((w = Expires \<or> w = Pending \<and> flush_event (foldl perform s calls))
      \<and> queue (foldl perform s calls) \<noteq> []
      \<longrightarrow> take (Suc (length (bulk_calls s)))
               (bulk_calls (final (waiting ev iv s ((calls, w, during) # script))))
            = bulk_calls s @ [batch (foldl perform s calls)])
   \<and> ((w = Expires \<or> w = Pending \<and> flush_event (foldl perform s calls))
      \<and> \<not> running (foldl perform s calls) \<and> queue (foldl perform s calls) = []
      \<longrightarrow> waiting ev iv s ((calls, w, during) # script)
            = Exited (log DEBUG (if flush_event (foldl perform s calls) then FlushingOnTrigger
                                 else FlushingAfterTimeout iv) (foldl perform s calls)))
   \<and> (running s \<and> run ev s during script = Exited s'
      \<longrightarrow> \<not> running s' \<and> queue s' = []
        \<and> take (Suc (length (bulk_calls s))) (bulk_calls s') = bulk_calls s @ [batch s])
   \<and> waiting ev iv s ((calls, RaisesTypeError, during) # script)
       = Returned (log DEBUG CaughtTypeError (foldl perform s calls))
   \<and> queue (final (waiting ev iv s ((calls, RaisesTypeError, during) # script)))
       = queue (foldl perform s calls)
   \<and> bulk_calls (final (waiting ev iv s ((calls, RaisesTypeError, during) # script)))
       = bulk_calls s"
proof -
  let ?s1 = "foldl perform s calls"
  let ?s2 = "log DEBUG (if flush_event ?s1 then FlushingOnTrigger else FlushingAfterTimeout iv) ?s1"
  let ?r = "waiting ev iv s ((calls, w, during) # script)"
  have u: "?r = (if running ?s2 \<or> length (queue ?s2) > 0 then
                   (case cycle ev ?s2 during of
                      (Inl e, s3) \<Rightarrow> Escaped e s3
                    | (Inr interval', s3) \<Rightarrow> waiting ev interval' s3 script)
                 else Exited ?s2)"
    if "w = Expires \<or> w = Pending \<and> flush_event ?s1"
    using that by (auto simp: waiting.simps(2) Let_def)
  have c1: "take (Suc (length (bulk_calls s))) (bulk_calls (final ?r))
            = bulk_calls s @ [batch ?s1]"
    if a: "(w = Expires \<or> w = Pending \<and> flush_event ?s1) \<and> queue ?s1 \<noteq> []"
  proof -
    obtain x s3 where s3: "cycle ev ?s2 during = (x, s3)" by (cases "cycle ev ?s2 during")
    have "batch ?s2 = batch ?s1" by (rule batch_queue) simp
    then have b: "bulk_calls s3 = bulk_calls s @ [batch ?s1]"
      using cycle_fields(3) [of ev ?s2 during] s3 by simp
    show ?thesis
    proof (cases x)
      case (Inl e)
      with a s3 b u show ?thesis by simp
    next
      case (Inr iv')
      obtain more where "bulk_calls (final (waiting ev iv' s3 script)) = bulk_calls s3 @ more"
        using waiting_bulk_calls by blast
      with Inr a s3 b u show ?thesis by simp
    qed
  qed
  have c2: "?r = Exited ?s2"
    if "(w = Expires \<or> w = Pending \<and> flush_event ?s1) \<and> \<not> running ?s1 \<and> queue ?s1 = []"
    using that u by simp
  have c3: "\<not> running s' \<and> queue s' = []
        \<and> take (Suc (length (bulk_calls s))) (bulk_calls s') = bulk_calls s @ [batch s]"
    if a: "running s \<and> run ev s during script = Exited s'"
  proof -
    obtain x s1 where s1: "cycle ev s during = (x, s1)" by (cases "cycle ev s during")
    then have b: "bulk_calls s1 = bulk_calls s @ [batch s]"
      using cycle_fields(3) [of ev s during] by simp
    from a have "running s" and "run ev s during script = Exited s'" by simp_all
    with s1 obtain iv' where w: "waiting ev iv' s1 script = Exited s'"
      by (cases x) (auto simp: run_def)
    obtain more where "bulk_calls (final (waiting ev iv' s1 script)) = bulk_calls s1 @ more"
      using waiting_bulk_calls by blast
    with w b have "bulk_calls s' = bulk_calls s @ batch s # more" by simp
    with waiting_exited [OF w] show ?thesis by simp
  qed
  have c4: "waiting ev iv s ((calls, RaisesTypeError, during) # script)
       = Returned (log DEBUG CaughtTypeError ?s1)"
    by (simp add: waiting.simps(2))
  from c1 c2 c3 c4 show ?thesis by (simp del: foldl.simps)
qed

theorem shutdown_drains_the_queue_witness:
  "queue (foldl perform idle [Enqueue ''a'' (PStr ''t'') (PInt 1) None, Stop]) \<noteq> []
   \<and> take 2 (bulk_calls (final (waiting env_ok (PInt 30) idle
        [([Enqueue ''a'' (PStr ''t'') (PInt 1) None, Stop], Expires, []), ([], Expires, [])])))
       = [[], [\<lparr>x_op_type = ''index'', x_index = ''log-a'', x_type = PStr ''t'',
                 x_source = PInt 1\<rparr>]]
   \<and> \<not> running (foldl perform idle [Stop]) \<and> queue (foldl perform idle [Stop]) = []
   \<and> waiting env_ok (PInt 30) idle [([Stop], Expires, []), ([], Expires, [])]
       = Exited (idle\<lparr>running := False,
                      logger := [(DEBUG, FlushedLogs 0), (DEBUG, FlushingAfterTimeout (PInt 30))]\<rparr>)
   \<and> running (init sample_config)
   \<and> run env_ok (init sample_config) [] [([Stop], Expires, [])]
       = Exited (idle\<lparr>running := False,
                      logger := [(DEBUG, FlushedLogs 0), (DEBUG, FlushingAfterTimeout (PInt 30))]\<rparr>)
   \<and> take 1 (bulk_calls (idle\<lparr>running := False,
                      logger := [(DEBUG, FlushedLogs 0), (DEBUG, FlushingAfterTimeout (PInt 30))]\<rparr>))
       = [batch (init sample_config)]
   \<and> queue (final (waiting env_ok (PInt 30) idle
        [([Enqueue ''a'' (PStr ''t'') (PInt 1) None, Stop], RaisesTypeError, [])]))
       = [(\<lparr>x_op_type = ''index'', x_index = ''log-a'', x_type = PStr ''t'',
             x_source = PInt 1\<rparr>, [])]
   \<and> bulk_calls (final (waiting env_ok (PInt 30) idle
        [([Enqueue ''a'' (PStr ''t'') (PInt 1) None, Stop], RaisesTypeError, [])])) = [[]]"
proof -
  let ?cs = "[Enqueue ''a'' (PStr ''t'') (PInt 1) None, Stop]"
  let ?x = "idle\<lparr>running := False,
                 logger := [(DEBUG, FlushedLogs 0), (DEBUG, FlushingAfterTimeout (PInt 30))]\<rparr>"
  note t = shutdown_drains_the_queue [where ev = env_ok]
  have q: "queue (foldl perform idle ?cs) \<noteq> []"
    unfolding idle_enqueue_stop by simp
  have qq: "queue (foldl perform idle ?cs)
      = [(\<lparr>x_op_type = ''index'', x_index = ''log-a'', x_type = PStr ''t'',
            x_source = PInt 1\<rparr>, [])]"
    unfolding idle_enqueue_stop by simp
  have bt: "batch (foldl perform idle ?cs)
      = [\<lparr>x_op_type = ''index'', x_index = ''log-a'', x_type = PStr ''t'', x_source = PInt 1\<rparr>]"
    unfolding idle_enqueue_stop by (simp add: batch_def run_postprocessors_def)
  from t [where s = idle and calls = ?cs and iv = "PInt 30" and w = Expires and during = "[]"
            and script = "[([], Expires, [])]"] q
  have a: "take (Suc (length (bulk_calls idle)))
             (bulk_calls (final (waiting env_ok (PInt 30) idle
                [(?cs, Expires, []), ([], Expires, [])])))
      = bulk_calls idle @ [batch (foldl perform idle ?cs)]"
    by blast
  have s: "\<not> running (foldl perform idle [Stop]) \<and> queue (foldl perform idle [Stop]) = []"
    unfolding idle_stop by (simp add: idle_fields)
  from t [where s = idle and calls = "[Stop]" and iv = "PInt 30" and w = Expires and during = "[]"
            and script = "[([], Expires, [])]"] s
  have b: "waiting env_ok (PInt 30) idle [([Stop], Expires, []), ([], Expires, [])]
      = Exited (log DEBUG (if flush_event (foldl perform idle [Stop]) then FlushingOnTrigger
                           else FlushingAfterTimeout (PInt 30)) (foldl perform idle [Stop]))"
    by blast
  have b': "log DEBUG (if flush_event (foldl perform idle [Stop]) then FlushingOnTrigger
                           else FlushingAfterTimeout (PInt 30)) (foldl perform idle [Stop]) = ?x"
    unfolding idle_stop by (simp add: idle_eq log_def init_def)
  have i: "running (init sample_config)" "bulk_calls (init sample_config) = []"
    by (simp_all add: init_def)
  from t [where s = "init sample_config" and during = "[]" and script = "[([Stop], Expires, [])]"
            and s' = ?x] i(1) run_stop
  have c: "take (Suc (length (bulk_calls (init sample_config)))) (bulk_calls ?x)
      = bulk_calls (init sample_config) @ [batch (init sample_config)]"
    by blast
  from t [where s = idle and calls = ?cs and iv = "PInt 30" and during = "[]" and script = "[]"]
  have d: "queue (final (waiting env_ok (PInt 30) idle [(?cs, RaisesTypeError, [])]))
        = queue (foldl perform idle ?cs)"
      "bulk_calls (final (waiting env_ok (PInt 30) idle [(?cs, RaisesTypeError, [])]))
        = bulk_calls idle"
    by blast+
  show ?thesis
    using q a bt s b c d i run_stop unfolding b' qq
    by (simp add: idle_fields numeral_2_eq_2 del: foldl.simps)
qed

text \<open>
  C9 as stated has one more flush before the loop ends whenever the queue is not empty.
  With a record queued and shutdown requested during the wait, a wait that raises
  \<^verbatim>\<open>TypeError\<close> ends \<^verbatim>\<open>run\<close> with the record still in the queue: the one bulk write is that of
  the first pass, with an empty batch.
\<close>

theorem type_error_strands_the_queue_counterexample:
  "run env_ok (init sample_config) []
       [([Enqueue ''a'' (PStr ''t'') (PInt 1) None, Stop], RaisesTypeError, [])]
     = Returned ((init sample_config)
         \<lparr>queue := [(\<lparr>x_op_type = ''index'', x_index = ''log-a'', x_type = PStr ''t'',
                       x_source = PInt 1\<rparr>, [])],
          running := False,
          logger := [(DEBUG, FlushedLogs 0), (DEBUG, PutAction 1 (PStr ''t'')),
                     (DEBUG, CaughtTypeError)],
          bulk_calls := [[]]\<rparr>)"
  by (simp add: eval_defs)

end
